theory Spec2Isabelle
  imports Complex_Main "HOL-Library.Word"
begin

unbundle bit_operations_syntax

section \<open>Common data\<close>

text \<open>
  Python exceptions that the modelled code can raise are values of \<open>error\<close>; a function
  that may raise returns \<open>error + 'a\<close>, with \<open>Inl\<close> for the exception.

  The coordinates and times the engine computes with are modelled as \<open>real\<close>: the finite
  float64 values, on which the comparisons of the source are exact; the rounding of
  float arithmetic is outside this model. The constructor of a zone is modelled on
  \<open>pyfloat\<close>, every value a Python float can have: a finite number, an infinity or
  NaN.
\<close>

datatype error = ValueError | IndexError | StructError | UnicodeEncodeError | RuntimeError

type_synonym byte = "8 word"

type_synonym point = "real \<times> real"




section \<open>services/geofencing_service.py: Zone\<close>




text \<open>
  \<open>Zone\<close> is a zone whose four bounds are finite numbers; the geometry below is done on
  it. \<open>finite_zone\<close> reads an instance as such a zone, when its four bounds are finite. The
  private attribute \<open>_polygon\<close> is computed from the four bounds in \<open>__post_init__\<close> and
  never changes, so it is the function \<open>polygon\<close> of the record and not a field.
\<close>

record Zone =
  min_x :: real
  min_y :: real
  max_x :: real
  max_y :: real
  name :: string



text \<open>The shell handed to \<open>Polygon(...)\<close>: five vertices, counter-clockwise, closed.\<close>

definition polygon :: "Zone \<Rightarrow> point list" where
  "polygon z =
     [(min_x z, min_y z), (max_x z, min_y z), (max_x z, max_y z),
      (min_x z, max_y z), (min_x z, min_y z)]"

subsection \<open>The two Shapely predicates the zone uses\<close>

text \<open>
  Shapely is a library outside the repository. \<open>Polygon.contains(Point)\<close> holds when
  the point lies in the interior of the polygon, \<open>Polygon.touches(Point)\<close> when it lies
  on its boundary. Both are modelled for a simple polygon given by its closed shell:
  the boundary is the union of the shell's edges, and the interior is decided by the
  crossing number of the horizontal ray from the point, the boundary taken out.
\<close>

definition ring_edges :: "point list \<Rightarrow> (point \<times> point) list" where
  "ring_edges ring = zip ring (tl ring)"

definition on_segment :: "point \<Rightarrow> point \<times> point \<Rightarrow> bool" where
  "on_segment p e =
     (case (p, e) of ((px, py), ((ax, ay), (bx, by))) \<Rightarrow>
        (bx - ax) * (py - ay) - (by - ay) * (px - ax) = 0
        \<and> min ax bx \<le> px \<and> px \<le> max ax bx
        \<and> min ay by \<le> py \<and> py \<le> max ay by)"

definition on_boundary :: "point list \<Rightarrow> point \<Rightarrow> bool" where
  "on_boundary ring p = list_ex (on_segment p) (ring_edges ring)"

definition ray_crosses :: "point \<Rightarrow> point \<times> point \<Rightarrow> bool" where
  "ray_crosses p e =
     (case (p, e) of ((px, py), ((ax, ay), (bx, by))) \<Rightarrow>
        ((ay > py) \<noteq> (by > py))
        \<and> px < ax + (py - ay) * (bx - ax) / (by - ay))"

definition crossing_number :: "point list \<Rightarrow> point \<Rightarrow> nat" where
  "crossing_number ring p = length (filter (ray_crosses p) (ring_edges ring))"

definition polygon_touches :: "point list \<Rightarrow> point \<Rightarrow> bool" where
  "polygon_touches ring p = on_boundary ring p"

definition polygon_contains :: "point list \<Rightarrow> point \<Rightarrow> bool" where
  "polygon_contains ring p = (odd (crossing_number ring p) \<and> \<not> on_boundary ring p)"

text \<open>\<open>Zone.contains_point\<close>: \<open>contains\<close> or \<open>touches\<close>.\<close>

definition contains_point :: "Zone \<Rightarrow> real \<Rightarrow> real \<Rightarrow> bool" where
  "contains_point z x y =
     (polygon_contains (polygon z) (x, y) \<or> polygon_touches (polygon z) (x, y))"

section \<open>services/geofencing_service.py: GeofencingService\<close>

text \<open>
  The state of a \<open>GeofencingService\<close>. \<open>fired\<close> is the dictionary \<open>_fired\<close> from
  \<open>(tag_id, zone_name)\<close> to the time of the last alert. The callback \<open>on_danger\<close> is
  left out: the program constructs its only service without one, and a callback that
  returns changes neither the alerts nor the dictionary.
\<close>

record GeofencingService =
  zones :: "Zone list"
  retrigger_after_sec :: "real option"
  target_tag_ids :: "int set option"
  fired :: "int \<times> string \<rightharpoonup> real"
  latest_positions :: "int \<rightharpoonup> point"

text \<open>An alert, the dictionary with the keys \<open>tag_id\<close>, \<open>zone\<close> and \<open>position\<close>.\<close>

record Alert =
  alert_tag_id :: int
  alert_zone :: Zone
  alert_position :: point

text \<open>
  \<open>GeofencingService.__init__\<close>. The second argument is the keyword argument
  \<open>retrigger_after_sec\<close>, the third the value \<open>settings.RETRIGGER_AFTER_SEC\<close>, a
  required float of the configuration: the stored interval is never \<open>None\<close>.
\<close>

definition GeofencingService_init ::
    "Zone list \<Rightarrow> real option \<Rightarrow> real \<Rightarrow> int set option \<Rightarrow> GeofencingService" where
  "GeofencingService_init zs retrigger settings_retrigger targets =
     \<lparr>zones = zs,
      retrigger_after_sec =
        (case retrigger of Some r \<Rightarrow> Some r | None \<Rightarrow> Some settings_retrigger),
      target_tag_ids = targets,
      fired = Map.empty,
      latest_positions = Map.empty\<rparr>"

text \<open>
  \<open>_can_fire\<close>, \<open>_mark_fired\<close> and \<open>_clear_if_outside\<close>. The argument \<open>now\<close> is the
  value of \<open>time.time()\<close>: one evaluation call is taken at one instant, so every reading
  of the clock within it is the same \<open>now\<close>.
\<close>

definition can_fire :: "GeofencingService \<Rightarrow> real \<Rightarrow> int \<times> string \<Rightarrow> bool" where
  "can_fire s now key =
     (case retrigger_after_sec s of
        None \<Rightarrow> fired s key = None
      | Some r \<Rightarrow>
          (case fired s key of
             None \<Rightarrow> True
           | Some last_time \<Rightarrow> now - last_time \<ge> r))"

definition mark_fired :: "GeofencingService \<Rightarrow> real \<Rightarrow> int \<times> string \<Rightarrow> GeofencingService" where
  "mark_fired s now key = s\<lparr>fired := (fired s)(key \<mapsto> now)\<rparr>"

definition clear_if_outside :: "GeofencingService \<Rightarrow> int \<Rightarrow> Zone \<Rightarrow> point \<Rightarrow> GeofencingService" where
  "clear_if_outside s tag_id zone pos =
     (case pos of (x, y) \<Rightarrow>
        if \<not> contains_point zone x y
        then s\<lparr>fired := (fired s)((tag_id, name zone) := None)\<rparr>
        else s)"

text \<open>The test \<open>self.target_tag_ids and (tag_id not in self.target_tag_ids)\<close>:
  \<open>None\<close> and the empty set are both false in Python.\<close>

definition filtered_out :: "GeofencingService \<Rightarrow> int \<Rightarrow> bool" where
  "filtered_out s tag_id =
     (case target_tag_ids s of
        None \<Rightarrow> False
      | Some ids \<Rightarrow> ids \<noteq> {} \<and> tag_id \<notin> ids)"

text \<open>
  One pass of the body of the inner loop of \<open>process_positions\<close>, for one tag and one
  zone: clear the entry when the tag is outside; when it is inside and may fire, record
  the time and append the alert.
\<close>

definition check_zone ::
    "GeofencingService \<Rightarrow> real \<Rightarrow> int \<Rightarrow> point \<Rightarrow> Zone \<Rightarrow> Alert list
      \<Rightarrow> GeofencingService \<times> Alert list" where
  "check_zone s now tag_id pos zone alerts =
     (let s1 = clear_if_outside s tag_id zone pos in
        if contains_point zone (fst pos) (snd pos) then
          (let key = (tag_id, name zone) in
             if can_fire s1 now key then
               (mark_fired s1 now key,
                alerts @ [\<lparr>alert_tag_id = tag_id, alert_zone = zone, alert_position = pos\<rparr>])
             else (s1, alerts))
        else (s1, alerts))"

text \<open>The inner loop, over the zones in their configured order.\<close>

fun process_zones ::
    "GeofencingService \<Rightarrow> real \<Rightarrow> int \<Rightarrow> point \<Rightarrow> Zone list \<Rightarrow> Alert list
      \<Rightarrow> GeofencingService \<times> Alert list" where
  "process_zones s now tag_id pos [] alerts = (s, alerts)"
| "process_zones s now tag_id pos (zone # zs) alerts =
     (case check_zone s now tag_id pos zone alerts of
        (s', alerts') \<Rightarrow> process_zones s' now tag_id pos zs alerts')"

text \<open>
  The outer loop, over the items of the dictionary \<open>positions\<close> in their order. The
  dictionary is the list of its items; its keys are distinct.
\<close>

fun process_items ::
    "GeofencingService \<Rightarrow> real \<Rightarrow> (int \<times> point) list \<Rightarrow> Alert list
      \<Rightarrow> GeofencingService \<times> Alert list" where
  "process_items s now [] alerts = (s, alerts)"
| "process_items s now ((tag_id, pos) # rest) alerts =
     (if filtered_out s tag_id then process_items s now rest alerts
      else
        (case process_zones s now tag_id pos (zones s) alerts of
           (s', alerts') \<Rightarrow> process_items s' now rest alerts'))"

definition process_positions ::
    "GeofencingService \<Rightarrow> real \<Rightarrow> (int \<times> point) list \<Rightarrow> GeofencingService \<times> Alert list" where
  "process_positions s now positions =
     process_items (s\<lparr>latest_positions := latest_positions s ++ map_of positions\<rparr>)
       now positions []"

section \<open>main.py: the location-frame decoder\<close>

text \<open>Sequencing of calls that may raise: the first exception ends the computation.\<close>

definition and_then :: "error + 'a \<Rightarrow> ('a \<Rightarrow> error + 'b) \<Rightarrow> error + 'b" where
  "and_then m f = (case m of Inl e \<Rightarrow> Inl e | Inr v \<Rightarrow> f v)"

text \<open>
  The reads of a \<open>bytes\<close> object: the slice \<open>data[i:j]\<close> (never raises, may be short),
  the index \<open>data[i]\<close> (raises \<open>IndexError\<close> out of range, gives an int), and
  \<open>struct.unpack\<close> of a big-endian unsigned (\<open>>H\<close>, \<open>>I\<close>) or signed (\<open>>h\<close>, \<open>>i\<close>)
  integer of \<open>n\<close> bytes, which raises \<open>struct.error\<close> unless it is given exactly \<open>n\<close> bytes.
\<close>

definition bytes_slice :: "byte list \<Rightarrow> nat \<Rightarrow> nat \<Rightarrow> byte list" where
  "bytes_slice data i j = take (j - i) (drop i data)"

definition byte_at :: "byte list \<Rightarrow> nat \<Rightarrow> error + int" where
  "byte_at data i = (if i < length data then Inr (uint (data ! i)) else Inl IndexError)"

definition be_value :: "byte list \<Rightarrow> int" where
  "be_value bs = foldl (\<lambda>acc b. acc * 256 + uint b) 0 bs"

definition unpack_unsigned :: "nat \<Rightarrow> byte list \<Rightarrow> error + int" where
  "unpack_unsigned n bs = (if length bs = n then Inr (be_value bs) else Inl StructError)"

definition unpack_signed :: "nat \<Rightarrow> byte list \<Rightarrow> error + int" where
  "unpack_signed n bs =
     (if length bs = n
      then Inr (let v = be_value bs in if v \<ge> 2 ^ (8 * n - 1) then v - 2 ^ (8 * n) else v)
      else Inl StructError)"

record TagLocationInfo =
  tag_id :: int
  x_coordinate :: real
  y_coordinate :: real
  z_coordinate :: real
  map_id :: int
  battery :: int
  sleep_flag :: bool
  charging_flag :: bool
  timestamp :: int
  floor_number :: int
  positioning_indication :: int
  coordinate_type :: string

text \<open>The \<open>if\<close>/\<open>elif\<close> chain on the frame type; \<open>None\<close> is its final \<open>else: return []\<close>.\<close>

definition coordinate_type_of :: "int \<Rightarrow> string option" where
  "coordinate_type_of frame_type =
     (if frame_type = 0x81 then Some ''relative''
      else if frame_type = 0xB4 then Some ''longitude_latitude''
      else if frame_type = 0xB5 then Some ''global''
      else None)"

text \<open>
  One pass of the loop body after the \<open>break\<close> test: the ten reads of a 23-byte record
  starting at \<open>offset\<close>, then the scaling of the coordinates.
\<close>

definition parse_record :: "byte list \<Rightarrow> int \<Rightarrow> string \<Rightarrow> nat \<Rightarrow> error + TagLocationInfo" where
  "parse_record data frame_type ctype offset =
     and_then (unpack_unsigned 4 (bytes_slice data offset (offset + 4))) (\<lambda>tid.
     and_then (unpack_signed 4 (bytes_slice data (offset + 4) (offset + 8))) (\<lambda>x_coord.
     and_then (unpack_signed 4 (bytes_slice data (offset + 8) (offset + 12))) (\<lambda>y_coord.
     and_then (unpack_signed 2 (bytes_slice data (offset + 12) (offset + 14))) (\<lambda>z_coord.
     and_then (byte_at data (offset + 14)) (\<lambda>mid.
     and_then (byte_at data (offset + 15)) (\<lambda>bat.
     and_then (byte_at data (offset + 16)) (\<lambda>sleep_charge_flag.
     and_then (unpack_unsigned 4 (bytes_slice data (offset + 17) (offset + 21))) (\<lambda>ts.
     and_then (byte_at data (offset + 21)) (\<lambda>floor_no.
     and_then (byte_at data (offset + 22)) (\<lambda>pos_ind.
       Inr \<lparr>tag_id = tid,
            x_coordinate =
              (if frame_type = 0xB4 then real_of_int x_coord / 10000000
               else real_of_int x_coord / 100),
            y_coordinate =
              (if frame_type = 0xB4 then real_of_int y_coord / 10000000
               else real_of_int y_coord / 100),
            z_coordinate =
              (if frame_type = 0xB4 then 0 else real_of_int z_coord / 100),
            map_id = mid,
            battery = bat,
            sleep_flag = ((drop_bit 4 sleep_charge_flag) AND 0x0F \<noteq> 0),
            charging_flag = (sleep_charge_flag AND 0x0F \<noteq> 0),
            timestamp = ts,
            floor_number = floor_no,
            positioning_indication = pos_ind,
            coordinate_type = ctype\<rparr>))))))))))"

text \<open>The test before each record: \<open>offset + 23 > len(data) - 4\<close>, on Python's integers.\<close>

definition stops_early :: "byte list \<Rightarrow> nat \<Rightarrow> bool" where
  "stops_early data offset = (int offset + 23 > int (length data) - 4)"

text \<open>
  \<open>for _ in range(num_tags)\<close>: the first argument after the coordinate type counts the
  passes left; \<open>break\<close> returns the records parsed so far.
\<close>

fun parse_loop ::
    "byte list \<Rightarrow> int \<Rightarrow> string \<Rightarrow> nat \<Rightarrow> nat \<Rightarrow> TagLocationInfo list
      \<Rightarrow> error + TagLocationInfo list" where
  "parse_loop data frame_type ctype 0 offset tags = Inr tags"
| "parse_loop data frame_type ctype (Suc n) offset tags =
     (if stops_early data offset then Inr tags
      else and_then (parse_record data frame_type ctype offset) (\<lambda>tag_info.
             parse_loop data frame_type ctype n (offset + 23) (tags @ [tag_info])))"

text \<open>The body of the \<open>try\<close> block.\<close>

definition parse_body :: "byte list \<Rightarrow> error + TagLocationInfo list" where
  "parse_body data =
     and_then (unpack_unsigned 2 (bytes_slice data 0 2)) (\<lambda>header.
     and_then (byte_at data 2) (\<lambda>frame_type.
       if header \<noteq> 0xCC5F then Inr []
       else
         (case coordinate_type_of frame_type of
            None \<Rightarrow> Inr []
          | Some ctype \<Rightarrow>
              and_then (byte_at data 3) (\<lambda>num_tags.
                if num_tags = 0 then Inr []
                else
                  (let expected_size = 4 + (num_tags * 23) + 4 in
                     if int (length data) < expected_size then Inr []
                     else parse_loop data frame_type ctype (nat num_tags) 4 [])))))"

text \<open>
  \<open>_parse_tag_location_data\<close>: the length test, then the \<open>try\<close> block whose handler
  \<open>except Exception\<close> turns every exception into the empty list. The result type keeps
  the place of an exception that would leave the function.
\<close>

definition parse_tag_location_data :: "byte list \<Rightarrow> error + TagLocationInfo list" where
  "parse_tag_location_data data =
     (if length data < 5 then Inr []
      else
        (case parse_body data of
           Inl e \<Rightarrow> Inr []
         | Inr tags \<Rightarrow> Inr tags))"

section \<open>main.py: the checksum and the authentication packet\<close>

text \<open>
  \<open>_calculate_crc16_modbus\<close>, on Python's unbounded integers: \<open>crc_shift\<close> is the body
  of the inner loop, \<open>crc_update\<close> one pass of the outer loop.
\<close>

definition crc_shift :: "int \<Rightarrow> int" where
  "crc_shift crc = (if crc AND 0x0001 \<noteq> 0 then (drop_bit 1 crc) XOR 0xA001 else drop_bit 1 crc)"

definition crc_update :: "int \<Rightarrow> byte \<Rightarrow> int" where
  "crc_update crc b = (crc_shift ^^ 8) (crc XOR uint b)"

definition calculate_crc16_modbus :: "byte list \<Rightarrow> int" where
  "calculate_crc16_modbus data = foldl crc_update 0xFFFF data"

text \<open>
  \<open>struct.pack\<close> of a big-endian unsigned integer of \<open>n\<close> bytes (\<open>B\<close>, \<open>>H\<close>, \<open>>I\<close>):
  \<open>struct.error\<close> when the value does not fit.
\<close>

definition pack_unsigned :: "nat \<Rightarrow> int \<Rightarrow> error + byte list" where
  "pack_unsigned n v =
     (if 0 \<le> v \<and> v < 256 ^ n
      then Inr (map (\<lambda>i. word_of_int (v div 256 ^ (n - 1 - i))) [0..<n])
      else Inl StructError)"

text \<open>
  A Python \<open>str\<close> is the list of its code points, and \<open>len\<close> counts them.
  \<open>str.encode()\<close> is UTF-8; it raises \<open>UnicodeEncodeError\<close> on a surrogate.
\<close>

type_synonym str = "nat list"

definition encode_char :: "nat \<Rightarrow> error + byte list" where
  "encode_char c =
     (if c < 0x80 then Inr [of_nat c]
      else if c < 0x800 then Inr [of_nat (0xC0 + c div 64), of_nat (0x80 + c mod 64)]
      else if 0xD800 \<le> c \<and> c < 0xE000 then Inl UnicodeEncodeError
      else if c < 0x10000 then
        Inr [of_nat (0xE0 + c div 4096), of_nat (0x80 + c div 64 mod 64), of_nat (0x80 + c mod 64)]
      else if c < 0x110000 then
        Inr [of_nat (0xF0 + c div 262144), of_nat (0x80 + c div 4096 mod 64),
             of_nat (0x80 + c div 64 mod 64), of_nat (0x80 + c mod 64)]
      else Inl ValueError)"

fun encode :: "str \<Rightarrow> error + byte list" where
  "encode [] = Inr []"
| "encode (c # cs) =
     and_then (encode_char c) (\<lambda>bs. and_then (encode cs) (\<lambda>rest. Inr (bs @ rest)))"

text \<open>
  \<open>hashlib.md5\<close> is outside the repository: the digest function is a parameter
  \<open>md5\<close> of the model. \<open>hexdigest\<close> writes a digest as lower-case hexadecimal.
\<close>

definition hex_digit :: "nat \<Rightarrow> nat" where
  "hex_digit d = (if d < 10 then 48 + d else 87 + d)"

definition hexdigest :: "byte list \<Rightarrow> str" where
  "hexdigest digest = concat (map (\<lambda>b. [hex_digit (unat b div 16), hex_digit (unat b mod 16)]) digest)"

record UWBCollector =
  username :: str
  password :: str
  salt :: str
  target_tag_id :: int

definition UWBCollector_init :: "str \<Rightarrow> str \<Rightarrow> int \<Rightarrow> UWBCollector" where
  "UWBCollector_init user pass target =
     \<lparr>username = user,
      password = pass,
      salt = map of_char ''abcdefghijklmnopqrstuvwxyz20191107salt'',
      target_tag_id = target\<rparr>"

text \<open>\<open>_create_auth_packet\<close>, statement by statement.\<close>

definition create_auth_packet :: "(byte list \<Rightarrow> byte list) \<Rightarrow> UWBCollector \<Rightarrow> error + byte list" where
  "create_auth_packet md5 self =
     and_then (encode (password self)) (\<lambda>pw.
     and_then (encode (hexdigest (md5 pw) @ salt self)) (\<lambda>salted.
     (let salt_pwd = hexdigest (md5 salted) in
     and_then (pack_unsigned 2 0xCC5F) (\<lambda>frame_header.
     and_then (pack_unsigned 1 0x27) (\<lambda>frame_type.
     and_then (pack_unsigned 4 (int (length (username self)))) (\<lambda>username_len.
     and_then (encode (username self)) (\<lambda>username_bytes.
     and_then (pack_unsigned 4 (int (length salt_pwd))) (\<lambda>password_len.
     and_then (encode salt_pwd) (\<lambda>password_bytes.
     (let crc_data = frame_type @ username_len @ username_bytes @ password_len @ password_bytes;
          crc = calculate_crc16_modbus crc_data in
     and_then (pack_unsigned 2 crc) (\<lambda>crc_bytes.
     and_then (pack_unsigned 2 0xAABB) (\<lambda>frame_tail.
       Inr (frame_header @ crc_data @ crc_bytes @ frame_tail)))))))))))))"

section \<open>main.py: broadcasting to the dashboard\<close>

text \<open>
  \<open>_broadcast_to_dashboard\<close>. The set \<open>app_state.dashboard_clients\<close> is shared with the
  handler of \<open>/ws/dashboard\<close>, which adds a client when it connects and discards it when
  it leaves, and every \<open>await client.send_json(message)\<close> lets such a task run. The set
  is the list of its members in the order the iterator visits them; \<open>env i live\<close> is
  the set as the other tasks leave it during the await of pass \<open>i\<close> of the loop, and
  is \<open>live\<close> itself when none of them touches it.

  The \<open>for\<close> statement asks the iterator of the set for the next client before every
  pass, and once more after the last. The iterator raises \<open>RuntimeError\<close> when the set
  no longer has the size it had when the loop began (\<open>used\<close>); that exception is raised
  outside the \<open>try\<close>, so it leaves the function before the line that removes the
  disconnected clients. A change that keeps the size goes unnoticed by the iterator;
  which members it then visits depends on the hash table, and the model goes on with
  the members it had still to visit.

  Whether \<open>client.send_json(message)\<close> returns or raises is the predicate \<open>send_ok\<close>; a
  delivery that returns appends the message to what the client has received (\<open>inbox\<close>),
  and the bare \<open>except\<close> catches every exception of a delivery. The result is the
  exception that left the function, if any, with the set and the inboxes at that moment.
\<close>

fun broadcast_loop ::
    "('c \<Rightarrow> bool) \<Rightarrow> (nat \<Rightarrow> 'c list \<Rightarrow> 'c list) \<Rightarrow> 'm \<Rightarrow> nat \<Rightarrow> nat \<Rightarrow> 'c list \<Rightarrow> 'c list
      \<Rightarrow> ('c \<Rightarrow> 'm list) \<Rightarrow> 'c set
      \<Rightarrow> error option \<times> 'c list \<times> ('c \<Rightarrow> 'm list) \<times> 'c set" where
  "broadcast_loop send_ok env message i used [] live inbox disconnected =
     (if length live \<noteq> used then (Some RuntimeError, live, inbox, disconnected)
      else (None, live, inbox, disconnected))"
| "broadcast_loop send_ok env message i used (client # rest) live inbox disconnected =
     (if length live \<noteq> used then (Some RuntimeError, live, inbox, disconnected)
      else if send_ok client
      then broadcast_loop send_ok env message (Suc i) used rest (env i live)
             (inbox(client := inbox client @ [message])) disconnected
      else broadcast_loop send_ok env message (Suc i) used rest (env i live)
             inbox (insert client disconnected))"

definition broadcast_to_dashboard ::
    "('c \<Rightarrow> bool) \<Rightarrow> (nat \<Rightarrow> 'c list \<Rightarrow> 'c list) \<Rightarrow> 'm \<Rightarrow> 'c list \<times> ('c \<Rightarrow> 'm list)
      \<Rightarrow> error option \<times> 'c list \<times> ('c \<Rightarrow> 'm list)" where
  "broadcast_to_dashboard send_ok env message st =
     (case st of (clients, inbox) \<Rightarrow>
        (case broadcast_loop send_ok env message 0 (length clients) clients clients inbox {} of
           (Some e, live, inbox', disconnected) \<Rightarrow> (Some e, live, inbox')
         | (None, live, inbox', disconnected) \<Rightarrow>
             (None, filter (\<lambda>c. c \<notin> disconnected) live, inbox')))"

section \<open>main.py: processing a location update\<close>

text \<open>
  The two dictionaries handed to \<open>_broadcast_to_dashboard\<close>: the one of type
  \<open>position_update\<close>, with the keys \<open>tag_id\<close>, \<open>x\<close>, \<open>y\<close>, \<open>battery\<close>, \<open>timestamp\<close>
  and \<open>in_danger_zone\<close>, and the one of type \<open>alert\<close>, with the keys \<open>tag_id\<close>,
  \<open>zone_name\<close>, \<open>position\<close> and \<open>timestamp\<close>.
\<close>

datatype message =
    position_update (msg_tag_id: int) (msg_x: real) (msg_y: real) (msg_battery: int)
      (msg_timestamp: int) (in_danger_zone: bool)
  | alert (msg_tag_id: int) (zone_name: string) (msg_position: point) (msg_timestamp: int)

text \<open>Python's \<open>int(v)\<close> of a float: truncation towards zero.\<close>

definition py_int :: "real \<Rightarrow> int" where
  "py_int v = (if v \<ge> 0 then \<lfloor>v\<rfloor> else \<lceil>v\<rceil>)"

text \<open>
  The global \<open>app_state\<close>, as far as a location update touches it: the geofencing
  service (set at start-up, before the collector runs), the dashboard clients and the
  latest positions. With it travel the two observable effects of broadcasting: what each
  client has received, and \<open>broadcasts\<close>, the messages handed to
  \<open>_broadcast_to_dashboard\<close> in the order of the calls.
\<close>

record 'c AppState =
  geofencing :: GeofencingService
  dashboard_clients :: "'c list"
  state_latest_positions :: "int \<rightharpoonup> point"
  received :: "'c \<Rightarrow> message list"
  broadcasts :: "message list"

text \<open>
  A call of \<open>_broadcast_to_dashboard\<close> from the location update. The update is taken
  without another task changing the client set while it runs, so the call raises
  nothing.
\<close>

definition publish :: "('c \<Rightarrow> bool) \<Rightarrow> message \<Rightarrow> 'c AppState \<Rightarrow> 'c AppState" where
  "publish send_ok msg st =
     (case broadcast_to_dashboard send_ok (\<lambda>i live. live) msg
             (dashboard_clients st, received st) of
        (raised, clients', inbox') \<Rightarrow>
          st\<lparr>dashboard_clients := clients', received := inbox',
             broadcasts := broadcasts st @ [msg]\<rparr>)"

text \<open>
  \<open>_send_alert\<close>. The call of \<open>_send_buzzer_vibration\<close> opens a connection of its own
  and catches and logs every exception; it touches nothing of the state and is left out.
  The \<open>timestamp\<close> of the message is \<open>int(time.time() * 1000)\<close>: the source reads the
  clock once more there and multiplies in floating point, where the model takes the
  reading \<open>now\<close> of the pass and exact arithmetic. No property below speaks of that
  field.
\<close>

definition send_alert :: "('c \<Rightarrow> bool) \<Rightarrow> real \<Rightarrow> Alert \<Rightarrow> 'c AppState \<Rightarrow> 'c AppState" where
  "send_alert send_ok now alert_info st =
     (let tag_id = alert_tag_id alert_info;
          zone = alert_zone alert_info;
          (x, y) = alert_position alert_info
      in publish send_ok (alert tag_id (name zone) (x, y) (py_int (now * 1000))) st)"

text \<open>
  One pass of the loop of \<open>_process_location_update\<close>, for one tag. \<open>now\<close> is the
  reading of the clock during the pass.
\<close>

definition process_tag ::
    "('c \<Rightarrow> bool) \<Rightarrow> real \<Rightarrow> 'c AppState \<Rightarrow> TagLocationInfo \<Rightarrow> 'c AppState" where
  "process_tag send_ok now st tag =
     (let st1 = st\<lparr>state_latest_positions :=
                   (state_latest_positions st)
                     (tag_id tag \<mapsto> (x_coordinate tag, y_coordinate tag))\<rparr>;
          positions = [(tag_id tag, (x_coordinate tag, y_coordinate tag))]
      in case process_positions (geofencing st1) now positions of
           (g, alerts) \<Rightarrow>
             (let st2 = foldl (\<lambda>acc alert_info. send_alert send_ok now alert_info acc)
                          (st1\<lparr>geofencing := g\<rparr>) alerts
              in publish send_ok
                   (position_update (tag_id tag) (x_coordinate tag) (y_coordinate tag)
                      (battery tag) (timestamp tag) (length alerts > 0))
                   st2))"

text \<open>The loop: the pass number \<open>i\<close> reads the clock at \<open>clock i\<close>.\<close>

fun process_tags ::
    "('c \<Rightarrow> bool) \<Rightarrow> (nat \<Rightarrow> real) \<Rightarrow> nat \<Rightarrow> 'c AppState \<Rightarrow> TagLocationInfo list
      \<Rightarrow> 'c AppState" where
  "process_tags send_ok clock i st [] = st"
| "process_tags send_ok clock i st (tag # rest) =
     process_tags send_ok clock (Suc i) (process_tag send_ok (clock i) st tag) rest"

text \<open>\<open>_process_location_update\<close>: the target filter (0 lets every tag through), then the loop.\<close>

definition process_location_update ::
    "UWBCollector \<Rightarrow> ('c \<Rightarrow> bool) \<Rightarrow> (nat \<Rightarrow> real) \<Rightarrow> 'c AppState \<Rightarrow> TagLocationInfo list
      \<Rightarrow> 'c AppState" where
  "process_location_update self send_ok clock st tags =
     (let target_tags =
            (if target_tag_id self = 0 then tags
             else filter (\<lambda>t. tag_id t = target_tag_id self) tags)
      in if target_tags = [] then st
         else process_tags send_ok clock 0 st target_tags)"

section \<open>Zone: construction and containment\<close>





lemma on_boundary_rectangle:
  assumes "min_x z < max_x z" and "min_y z < max_y z"
  shows "on_boundary (polygon z) (x, y) \<longleftrightarrow>
           (min_x z \<le> x \<and> x \<le> max_x z \<and> min_y z \<le> y \<and> y \<le> max_y z
            \<and> (x = min_x z \<or> x = max_x z \<or> y = min_y z \<or> y = max_y z))"
  using assms
  by (auto simp: on_boundary_def polygon_def ring_edges_def on_segment_def)

lemma crossing_number_rectangle:
  assumes "min_x z < max_x z" and "min_y z < max_y z"
  shows "odd (crossing_number (polygon z) (x, y)) \<longleftrightarrow>
           (min_x z \<le> x \<and> x < max_x z \<and> min_y z \<le> y \<and> y < max_y z)"
  using assms
  by (auto simp: crossing_number_def polygon_def ring_edges_def ray_crosses_def)

lemma contains_point_closed:
  assumes "min_x z < max_x z" and "min_y z < max_y z"
  shows "contains_point z x y \<longleftrightarrow>
           (min_x z \<le> x \<and> x \<le> max_x z \<and> min_y z \<le> y \<and> y \<le> max_y z)"
  unfolding contains_point_def polygon_contains_def polygon_touches_def
    on_boundary_rectangle [OF assms] crossing_number_rectangle [OF assms]
  by auto

text \<open>
  Claim C3. For every valid zone (\<open>min_x < max_x\<close> and \<open>min_y < max_y\<close>),
  \<open>contains_point\<close> uses closed bounds: a point is contained exactly when
  \<open>min_x \<le> x \<le> max_x\<close> and \<open>min_y \<le> y \<le> max_y\<close>; in particular the two corners
  \<open>(min_x, min_y)\<close> and \<open>(max_x, max_y)\<close> are contained.
\<close>

theorem contains_point_closed_bounds:
  assumes "min_x z < max_x z" and "min_y z < max_y z"
  shows "(contains_point z x y \<longleftrightarrow>
            (min_x z \<le> x \<and> x \<le> max_x z \<and> min_y z \<le> y \<and> y \<le> max_y z))
         \<and> contains_point z (min_x z) (min_y z)
         \<and> contains_point z (max_x z) (max_y z)"
  using assms by (simp add: contains_point_closed)

theorem contains_point_closed_bounds_witness:
  "min_x \<lparr>min_x = 1, min_y = 1, max_x = 2, max_y = 2, name = ''A''\<rparr>
     < max_x \<lparr>min_x = 1, min_y = 1, max_x = 2, max_y = 2, name = ''A''\<rparr>
   \<and> min_y \<lparr>min_x = 1, min_y = 1, max_x = 2, max_y = 2, name = ''A''\<rparr>
     < max_y \<lparr>min_x = 1, min_y = 1, max_x = 2, max_y = 2, name = ''A''\<rparr>
   \<and> contains_point \<lparr>min_x = 1, min_y = 1, max_x = 2, max_y = 2, name = ''A''\<rparr> 2 (3 / 2)
   \<and> contains_point \<lparr>min_x = 1, min_y = 1, max_x = 2, max_y = 2, name = ''A''\<rparr> 1 1
   \<and> contains_point \<lparr>min_x = 1, min_y = 1, max_x = 2, max_y = 2, name = ''A''\<rparr> 2 2"
  using contains_point_closed_bounds
    [of "\<lparr>min_x = 1, min_y = 1, max_x = 2, max_y = 2, name = ''A''\<rparr>" 2 "3 / 2"]
  by simp




section \<open>The checksum\<close>

text \<open>
  Claim C6. The CRC routine used for the authentication packet agrees with the
  reference CRC-16/MODBUS on two vectors: the CRC of the ASCII bytes of \<open>123456789\<close> is
  \<open>0x4B37\<close>, and the CRC of the empty byte string is \<open>0xFFFF\<close>.
\<close>

theorem crc16_modbus_check_vectors:
  "calculate_crc16_modbus (map of_char ''123456789'') = 0x4B37
   \<and> calculate_crc16_modbus [] = 0xFFFF"
  by code_simp

section \<open>The location-frame decoder\<close>

lemma and_then_Inr [simp]: "and_then (Inr v) f = f v"
  by (simp add: and_then_def)

lemma and_then_Inl [simp]: "and_then (Inl e) f = Inl e"
  by (simp add: and_then_def)

lemma length_bytes_slice:
  "j \<le> length data \<Longrightarrow> length (bytes_slice data i j) = j - i"
  by (simp add: bytes_slice_def)

lemma parse_record_in_range:
  assumes "offset + 23 \<le> length data"
  shows "\<exists>t. parse_record data frame_type ctype offset = Inr t"
  using assms
  by (simp add: parse_record_def unpack_unsigned_def unpack_signed_def byte_at_def
      length_bytes_slice)

lemma parse_loop_complete:
  "offset + 23 * n + 4 \<le> length data \<Longrightarrow>
     \<exists>ts. parse_loop data frame_type ctype n offset tags = Inr (tags @ ts)
        \<and> length ts = n
        \<and> (\<forall>i<n. parse_record data frame_type ctype (offset + 23 * i) = Inr (ts ! i))"
proof (induction n arbitrary: offset tags)
  case 0
  then show ?case by simp
next
  case (Suc n)
  from Suc.prems have range: "offset + 23 \<le> length data" by simp
  then obtain t where t: "parse_record data frame_type ctype offset = Inr t"
    using parse_record_in_range by blast
  from Suc.prems have go: "\<not> stops_early data offset"
    by (simp add: stops_early_def)
  from Suc.prems have "(offset + 23) + 23 * n + 4 \<le> length data" by simp
  from Suc.IH [OF this, of "tags @ [t]"] obtain ts where
    ts: "parse_loop data frame_type ctype n (offset + 23) (tags @ [t]) = Inr ((tags @ [t]) @ ts)"
      "length ts = n"
      "\<forall>i<n. parse_record data frame_type ctype (offset + 23 + 23 * i) = Inr (ts ! i)"
    by blast
  have "parse_loop data frame_type ctype (Suc n) offset tags = Inr (tags @ (t # ts))"
    using go t ts(1) by simp
  moreover have "length (t # ts) = Suc n" using ts(2) by simp
  moreover have "\<forall>i<Suc n. parse_record data frame_type ctype (offset + 23 * i) = Inr ((t # ts) ! i)"
  proof (intro allI impI)
    fix i assume "i < Suc n"
    show "parse_record data frame_type ctype (offset + 23 * i) = Inr ((t # ts) ! i)"
    proof (cases i)
      case 0
      then show ?thesis using t by simp
    next
      case (Suc k)
      with \<open>i < Suc n\<close> have "k < n" by simp
      with ts(3) have "parse_record data frame_type ctype (offset + 23 + 23 * k) = Inr (ts ! k)"
        by blast
      then show ?thesis using Suc by (simp add: add.assoc)
    qed
  qed
  ultimately show ?case by blast
qed

lemma parse_body_cases:
  assumes "5 \<le> length data"
  shows "parse_body data = Inr []
       \<or> (\<exists>ctype ts.
             be_value (bytes_slice data 0 2) = 0xCC5F
           \<and> coordinate_type_of (uint (data ! 2)) = Some ctype
           \<and> data ! 3 \<noteq> 0
           \<and> 4 + 23 * unat (data ! 3) + 4 \<le> length data
           \<and> parse_body data = Inr ts
           \<and> length ts = unat (data ! 3)
           \<and> (\<forall>i<unat (data ! 3).
                 parse_record data (uint (data ! 2)) ctype (4 + 23 * i) = Inr (ts ! i)))"
proof -
  have hd: "unpack_unsigned 2 (bytes_slice data 0 2) = Inr (be_value (bytes_slice data 0 2))"
    using assms by (simp add: unpack_unsigned_def length_bytes_slice)
  have b2: "byte_at data 2 = Inr (uint (data ! 2))" and b3: "byte_at data 3 = Inr (uint (data ! 3))"
    using assms by (simp_all add: byte_at_def)
  consider (header) "be_value (bytes_slice data 0 2) \<noteq> 0xCC5F"
    | (ftype) "coordinate_type_of (uint (data ! 2)) = None"
    | (zero) "data ! 3 = 0"
    | (short) "int (length data) < 4 + uint (data ! 3) * 23 + 4"
    | (go) ctype where "be_value (bytes_slice data 0 2) = 0xCC5F"
        "coordinate_type_of (uint (data ! 2)) = Some ctype" "data ! 3 \<noteq> 0"
        "\<not> int (length data) < 4 + uint (data ! 3) * 23 + 4"
    by (cases "coordinate_type_of (uint (data ! 2))") auto
  then show ?thesis
  proof cases
    case header
    then show ?thesis by (simp add: parse_body_def hd b2)
  next
    case ftype
    then show ?thesis by (simp add: parse_body_def hd b2)
  next
    case zero
    then show ?thesis by (simp add: parse_body_def hd b2 b3 split: option.splits)
  next
    case short
    then show ?thesis by (simp add: parse_body_def hd b2 b3 Let_def split: option.splits)
  next
    case go
    have "int (4 + 23 * unat (data ! 3) + 4) = 4 + uint (data ! 3) * 23 + 4"
      by simp
    with go(4) have "int (4 + 23 * unat (data ! 3) + 4) \<le> int (length data)"
      by linarith
    then have len: "4 + 23 * unat (data ! 3) + 4 \<le> length data"
      by (rule of_nat_le_iff [THEN iffD1])
    from parse_loop_complete [OF len, of "uint (data ! 2)" ctype "[]"] obtain ts where
      ts: "parse_loop data (uint (data ! 2)) ctype (unat (data ! 3)) 4 [] = Inr ts"
        "length ts = unat (data ! 3)"
        "\<forall>i<unat (data ! 3). parse_record data (uint (data ! 2)) ctype (4 + 23 * i) = Inr (ts ! i)"
      by auto
    have nz: "uint (data ! 3) \<noteq> 0" using go(3) by (simp add: uint_0_iff)
    have "parse_body data = Inr ts"
      using go(1,2,4) nz ts(1) by (simp add: parse_body_def hd b2 b3 Let_def)
    with go(1,2,3) len ts(2,3) show ?thesis by blast
  qed
qed

lemma be_value_header:
  "be_value [a, b] = 0xCC5F \<longleftrightarrow> a = 0xCC \<and> b = 0x5F"
proof
  assume h: "be_value [a, b] = 0xCC5F"
  have "uint a < 256" "uint b < 256" "0 \<le> uint a" "0 \<le> uint b"
    using uint_lt2p [of a] uint_lt2p [of b] by simp_all
  moreover from h have "uint a * 256 + uint b = 52319" by (simp add: be_value_def)
  ultimately have "uint a = 204 \<and> uint b = 95" by arith
  then have "uint a = uint (0xCC :: byte) \<and> uint b = uint (0x5F :: byte)" by simp
  then show "a = 0xCC \<and> b = 0x5F" by (simp only: word_uint_eq_iff)
next
  assume "a = 0xCC \<and> b = 0x5F"
  then show "be_value [a, b] = 0xCC5F" by (simp add: be_value_def)
qed

lemma header_slice:
  assumes "5 \<le> length data"
  shows "be_value (bytes_slice data 0 2) = 0xCC5F \<longleftrightarrow> take 2 data = [0xCC, 0x5F]"
proof -
  from assms obtain a b rest where d: "data = a # b # rest"
    by (cases data; cases "tl data") auto
  show ?thesis by (simp add: d bytes_slice_def be_value_header)
qed

lemma coordinate_type_of_None:
  "coordinate_type_of t = None \<longleftrightarrow> t \<notin> {0x81, 0xB4, 0xB5}"
  by (simp add: coordinate_type_of_def)

lemma parse_tag_location_data_body:
  "5 \<le> length data \<Longrightarrow> parse_body data = Inr ts \<Longrightarrow> parse_tag_location_data data = Inr ts"
  by (simp add: parse_tag_location_data_def)

text \<open>
  Claim C4. For every input byte string the location-frame decoder never raises; it
  returns the empty sequence whenever the total length is less than 5, the 2-byte
  header is not \<open>0xCC5F\<close>, the frame-type byte is not one of \<open>0x81\<close>, \<open>0xB4\<close>,
  \<open>0xB5\<close>, the declared tag count is 0, or the total length is shorter than
  \<open>4 + tagCount * 23 + 4\<close>. The second conjunct adds that, from five bytes on, the
  body of the \<open>try\<close> block itself returns: its handler is never entered.
\<close>

theorem decoder_fails_soft:
  "(\<exists>tags. parse_tag_location_data data = Inr tags)
   \<and> (5 \<le> length data \<longrightarrow> (\<exists>tags. parse_body data = Inr tags))
   \<and> (length data < 5
        \<or> take 2 data \<noteq> [0xCC, 0x5F]
        \<or> uint (data ! 2) \<notin> {0x81, 0xB4, 0xB5}
        \<or> data ! 3 = 0
        \<or> length data < 4 + unat (data ! 3) * 23 + 4
      \<longrightarrow> parse_tag_location_data data = Inr [])"
proof (cases "length data < 5")
  case True
  then show ?thesis by (simp add: parse_tag_location_data_def)
next
  case False
  then have len: "5 \<le> length data" by simp
  from parse_body_cases [OF len] show ?thesis
  proof
    assume "parse_body data = Inr []"
    then show ?thesis using len by (simp add: parse_tag_location_data_def)
  next
    assume "\<exists>ctype ts.
             be_value (bytes_slice data 0 2) = 0xCC5F
           \<and> coordinate_type_of (uint (data ! 2)) = Some ctype
           \<and> data ! 3 \<noteq> 0
           \<and> 4 + 23 * unat (data ! 3) + 4 \<le> length data
           \<and> parse_body data = Inr ts
           \<and> length ts = unat (data ! 3)
           \<and> (\<forall>i<unat (data ! 3).
                 parse_record data (uint (data ! 2)) ctype (4 + 23 * i) = Inr (ts ! i))"
    then obtain ctype ts where
      h: "be_value (bytes_slice data 0 2) = 0xCC5F"
         "coordinate_type_of (uint (data ! 2)) = Some ctype"
         "data ! 3 \<noteq> 0"
         "4 + 23 * unat (data ! 3) + 4 \<le> length data"
         "parse_body data = Inr ts"
      by blast
    have "take 2 data = [0xCC, 0x5F]" using h(1) header_slice [OF len] by simp
    moreover have "uint (data ! 2) \<in> {0x81, 0xB4, 0xB5}"
      using h(2) coordinate_type_of_None [of "uint (data ! 2)"] by auto
    moreover have "\<not> length data < 4 + unat (data ! 3) * 23 + 4" using h(4) by simp
    moreover have "parse_tag_location_data data = Inr ts"
      using len h(5) by (rule parse_tag_location_data_body)
    ultimately show ?thesis using len h(3,5) by simp
  qed
qed

theorem decoder_fails_soft_witness:
  "parse_tag_location_data [0xCC, 0x5F, 0x81, 0x00, 0x00] = Inr []
   \<and> parse_tag_location_data [0xCC, 0x5F, 0x81] = Inr []
   \<and> parse_tag_location_data [0xCC, 0x5E, 0x81, 0x01, 0x00] = Inr []
   \<and> parse_tag_location_data [0xCC, 0x5F, 0x82, 0x01, 0x00] = Inr []
   \<and> parse_tag_location_data [0xCC, 0x5F, 0x81, 0x01, 0x00, 0x00, 0x00, 0x07] = Inr []"
  using decoder_fails_soft [of "[0xCC, 0x5F, 0x81, 0x00, 0x00]"]
    decoder_fails_soft [of "[0xCC, 0x5F, 0x81]"]
    decoder_fails_soft [of "[0xCC, 0x5E, 0x81, 0x01, 0x00]"]
    decoder_fails_soft [of "[0xCC, 0x5F, 0x82, 0x01, 0x00]"]
    decoder_fails_soft [of "[0xCC, 0x5F, 0x81, 0x01, 0x00, 0x00, 0x00, 0x07]"]
  by simp

text \<open>
  Claim C10. The location-frame decoder is all-or-nothing: for every input byte string
  it returns either the empty sequence or exactly \<open>tag_count\<close> fully parsed records,
  the \<open>i\<close>-th read from the 23 bytes at offset \<open>4 + 23 * i\<close>; since decoding only
  proceeds when the length is at least \<open>4 + tag_count * 23 + 4\<close>, the early-stop test
  is false before every record and the \<open>break\<close> is never taken.
\<close>

theorem decoder_all_or_nothing:
  "parse_tag_location_data data = Inr []
   \<or> (\<exists>ctype ts.
         parse_tag_location_data data = Inr ts
       \<and> length ts = unat (data ! 3)
       \<and> coordinate_type_of (uint (data ! 2)) = Some ctype
       \<and> (\<forall>i<unat (data ! 3).
             \<not> stops_early data (4 + 23 * i)
           \<and> parse_record data (uint (data ! 2)) ctype (4 + 23 * i) = Inr (ts ! i)))"
proof (cases "length data < 5")
  case True
  then show ?thesis by (simp add: parse_tag_location_data_def)
next
  case False
  then have len: "5 \<le> length data" by simp
  from parse_body_cases [OF len] show ?thesis
  proof
    assume "parse_body data = Inr []"
    then show ?thesis using len by (simp add: parse_tag_location_data_def)
  next
    assume "\<exists>ctype ts.
             be_value (bytes_slice data 0 2) = 0xCC5F
           \<and> coordinate_type_of (uint (data ! 2)) = Some ctype
           \<and> data ! 3 \<noteq> 0
           \<and> 4 + 23 * unat (data ! 3) + 4 \<le> length data
           \<and> parse_body data = Inr ts
           \<and> length ts = unat (data ! 3)
           \<and> (\<forall>i<unat (data ! 3).
                 parse_record data (uint (data ! 2)) ctype (4 + 23 * i) = Inr (ts ! i))"
    then obtain ctype ts where
      h: "coordinate_type_of (uint (data ! 2)) = Some ctype"
         "4 + 23 * unat (data ! 3) + 4 \<le> length data"
         "parse_body data = Inr ts"
         "length ts = unat (data ! 3)"
         "\<forall>i<unat (data ! 3).
             parse_record data (uint (data ! 2)) ctype (4 + 23 * i) = Inr (ts ! i)"
      by blast
    have "parse_tag_location_data data = Inr ts"
      using len h(3) by (rule parse_tag_location_data_body)
    moreover have "\<forall>i<unat (data ! 3). \<not> stops_early data (4 + 23 * i)"
    proof (intro allI impI)
      fix i assume "i < unat (data ! 3)"
      then have "23 * i + 23 \<le> 23 * unat (data ! 3)" by simp
      with h(2) have "4 + 23 * i + 23 + 4 \<le> length data" by linarith
      then show "\<not> stops_early data (4 + 23 * i)" by (simp add: stops_early_def)
    qed
    ultimately show ?thesis using h(1,4,5) by blast
  qed
qed

theorem decoder_all_or_nothing_witness:
  "parse_tag_location_data
     [0xCC, 0x5F, 0x81, 0x01,
      0x00, 0x00, 0x00, 0x07,  0x00, 0x00, 0x00, 0x96,  0x00, 0x00, 0x00, 0x96,
      0x00, 0x00,  0x01, 0x50, 0x10,  0x00, 0x00, 0x00, 0x01,  0x01, 0x00,
      0x00, 0x00, 0x00, 0x00] \<noteq> Inr []
   \<and> length (projr (parse_tag_location_data
       [0xCC, 0x5F, 0x81, 0x01,
        0x00, 0x00, 0x00, 0x07,  0x00, 0x00, 0x00, 0x96,  0x00, 0x00, 0x00, 0x96,
        0x00, 0x00,  0x01, 0x50, 0x10,  0x00, 0x00, 0x00, 0x01,  0x01, 0x00,
        0x00, 0x00, 0x00, 0x00])) = 1
   \<and> \<not> stops_early
       [0xCC, 0x5F, 0x81, 0x01,
        0x00, 0x00, 0x00, 0x07,  0x00, 0x00, 0x00, 0x96,  0x00, 0x00, 0x00, 0x96,
        0x00, 0x00,  0x01, 0x50, 0x10,  0x00, 0x00, 0x00, 0x01,  0x01, 0x00,
        0x00, 0x00, 0x00, 0x00] 4"
proof -
  let ?F = "[0xCC, 0x5F, 0x81, 0x01,
      0x00, 0x00, 0x00, 0x07,  0x00, 0x00, 0x00, 0x96,  0x00, 0x00, 0x00, 0x96,
      0x00, 0x00,  0x01, 0x50, 0x10,  0x00, 0x00, 0x00, 0x01,  0x01, 0x00,
      0x00, 0x00, 0x00, 0x00] :: byte list"
  have ne: "parse_tag_location_data ?F \<noteq> Inr []"
    by code_simp
  have n: "unat (?F ! 3) = 1"
    by simp
  from decoder_all_or_nothing [of ?F] ne obtain ctype ts where
    ts: "parse_tag_location_data ?F = Inr ts" "length ts = unat (?F ! 3)"
      "\<forall>i<unat (?F ! 3). \<not> stops_early ?F (4 + 23 * i)
          \<and> parse_record ?F (uint (?F ! 2)) ctype (4 + 23 * i) = Inr (ts ! i)"
    by blast
  from ts(3) n have "\<not> stops_early ?F (4 + 23 * 0)"
    by (metis zero_less_one)
  then have "\<not> stops_early ?F 4" by simp
  moreover from ts(1,2) n have "length (projr (parse_tag_location_data ?F)) = 1"
    by simp
  ultimately show ?thesis using ne by blast
qed

section \<open>Broadcasting\<close>

text \<open>A loop that no other task disturbs reaches its end and raises nothing.\<close>

lemma broadcast_loop_undisturbed:
  "distinct todo \<Longrightarrow> (\<And>j. i \<le> j \<Longrightarrow> j < i + length todo \<Longrightarrow> env j live = live)
     \<Longrightarrow> length live = used \<Longrightarrow>
     broadcast_loop send_ok env message i used todo live inbox disconnected =
       (None, live,
        (\<lambda>c. if c \<in> set todo \<and> send_ok c then inbox c @ [message] else inbox c),
        disconnected \<union> {c \<in> set todo. \<not> send_ok c})"
proof (induction todo arbitrary: i inbox disconnected)
  case Nil
  then show ?case by simp
next
  case (Cons client rest)
  from Cons.prems(1) have d: "distinct rest" and n: "client \<notin> set rest" by simp_all
  have e: "env i live = live" by (rule Cons.prems(2)) simp_all
  have r: "env j live = live" if "Suc i \<le> j" and "j < Suc i + length rest" for j
    by (rule Cons.prems(2)) (use that in simp_all)
  note ih = Cons.IH [OF d r Cons.prems(3)]
  show ?case
  proof (cases "send_ok client")
    case True
    have "broadcast_loop send_ok env message i used (client # rest) live inbox disconnected =
            broadcast_loop send_ok env message (Suc i) used rest live
              (inbox(client := inbox client @ [message])) disconnected"
      using True Cons.prems(3) by (simp add: e)
    also have "\<dots> =
          (None, live,
           (\<lambda>c. if c \<in> set rest \<and> send_ok c
                then (inbox(client := inbox client @ [message])) c @ [message]
                else (inbox(client := inbox client @ [message])) c),
           disconnected \<union> {c \<in> set rest. \<not> send_ok c})"
      by (rule ih)
    also have "\<dots> =
          (None, live,
           (\<lambda>c. if c \<in> set (client # rest) \<and> send_ok c then inbox c @ [message] else inbox c),
           disconnected \<union> {c \<in> set (client # rest). \<not> send_ok c})"
      using True n by (auto simp: fun_eq_iff)
    finally show ?thesis .
  next
    case False
    have "broadcast_loop send_ok env message i used (client # rest) live inbox disconnected =
            broadcast_loop send_ok env message (Suc i) used rest live
              inbox (insert client disconnected)"
      using False Cons.prems(3) by (simp add: e)
    also have "\<dots> =
          (None, live,
           (\<lambda>c. if c \<in> set rest \<and> send_ok c then inbox c @ [message] else inbox c),
           insert client disconnected \<union> {c \<in> set rest. \<not> send_ok c})"
      by (rule ih)
    also have "\<dots> =
          (None, live,
           (\<lambda>c. if c \<in> set (client # rest) \<and> send_ok c then inbox c @ [message] else inbox c),
           disconnected \<union> {c \<in> set (client # rest). \<not> send_ok c})"
      using False n by (auto simp: fun_eq_iff)
    finally show ?thesis .
  qed
qed

lemma broadcast_to_dashboard_undisturbed:
  assumes "distinct clients"
  shows "broadcast_to_dashboard send_ok (\<lambda>i live. live) message (clients, inbox) =
           (None, filter send_ok clients,
            (\<lambda>c. if c \<in> set clients \<and> send_ok c then inbox c @ [message] else inbox c))"
proof -
  have "filter (\<lambda>c. c \<notin> {c \<in> set clients. \<not> send_ok c}) clients = filter send_ok clients"
    by (rule filter_cong) auto
  then show ?thesis
    by (simp add: broadcast_to_dashboard_def broadcast_loop_undisturbed [OF assms])
qed




section \<open>The geofencing engine\<close>

text \<open>What one pass over one zone does to the service and to the list of alerts.\<close>

lemma can_fire_cong:
  "retrigger_after_sec s' = retrigger_after_sec s \<Longrightarrow> fired s' key = fired s key
     \<Longrightarrow> can_fire s' now key = can_fire s now key"
  by (auto simp: can_fire_def split: option.splits)

lemma check_zone_fields:
  "zones (fst (check_zone s now t pos z al)) = zones s"
  "retrigger_after_sec (fst (check_zone s now t pos z al)) = retrigger_after_sec s"
  "target_tag_ids (fst (check_zone s now t pos z al)) = target_tag_ids s"
  "latest_positions (fst (check_zone s now t pos z al)) = latest_positions s"
  by (simp_all add: check_zone_def clear_if_outside_def mark_fired_def Let_def
        split: prod.splits)

lemma check_zone_fired_other:
  "k \<noteq> (t, name z) \<Longrightarrow> fired (fst (check_zone s now t pos z al)) k = fired s k"
  by (simp add: check_zone_def clear_if_outside_def mark_fired_def Let_def
        split: prod.splits)

lemma check_zone_fired_key:
  "fired (fst (check_zone s now t pos z al)) (t, name z) =
     (if contains_point z (fst pos) (snd pos)
      then (if can_fire s now (t, name z) then Some now else fired s (t, name z))
      else None)"
  by (simp add: check_zone_def clear_if_outside_def mark_fired_def Let_def
        split: prod.splits)

lemma check_zone_alerts:
  "snd (check_zone s now t pos z al) =
     al @ (if contains_point z (fst pos) (snd pos) \<and> can_fire s now (t, name z)
           then [\<lparr>alert_tag_id = t, alert_zone = z, alert_position = pos\<rparr>] else [])"
  by (simp add: check_zone_def clear_if_outside_def mark_fired_def Let_def
        split: prod.splits)

lemma filtered_out_cong:
  "target_tag_ids s' = target_tag_ids s \<Longrightarrow> filtered_out s' t = filtered_out s t"
  by (simp add: filtered_out_def)

text \<open>The inner loop, by induction on the zones.\<close>

lemma process_zones_Cons:
  "process_zones s now t pos (z # zs) al =
     process_zones (fst (check_zone s now t pos z al)) now t pos zs
       (snd (check_zone s now t pos z al))"
  by (simp split: prod.splits)

lemma process_zones_fields_all:
  "zones (fst (process_zones s now t pos zs al)) = zones s
   \<and> retrigger_after_sec (fst (process_zones s now t pos zs al)) = retrigger_after_sec s
   \<and> target_tag_ids (fst (process_zones s now t pos zs al)) = target_tag_ids s
   \<and> latest_positions (fst (process_zones s now t pos zs al)) = latest_positions s"
proof (induction zs arbitrary: s al)
  case Nil
  show ?case by simp
next
  case (Cons z zs)
  show ?case
    unfolding process_zones_Cons
    using Cons.IH [of "fst (check_zone s now t pos z al)" "snd (check_zone s now t pos z al)"]
    by (simp add: check_zone_fields)
qed

lemma process_zones_fields:
  "zones (fst (process_zones s now t pos zs al)) = zones s"
  "retrigger_after_sec (fst (process_zones s now t pos zs al)) = retrigger_after_sec s"
  "target_tag_ids (fst (process_zones s now t pos zs al)) = target_tag_ids s"
  "latest_positions (fst (process_zones s now t pos zs al)) = latest_positions s"
  using process_zones_fields_all [of s now t pos zs al] by simp_all

lemma process_zones_fired_other:
  "(\<And>z. z \<in> set zs \<Longrightarrow> k \<noteq> (t, name z))
     \<Longrightarrow> fired (fst (process_zones s now t pos zs al)) k = fired s k"
proof (induction zs arbitrary: s al)
  case Nil
  show ?case by simp
next
  case (Cons z zs)
  have "fired (fst (process_zones (fst (check_zone s now t pos z al)) now t pos zs
          (snd (check_zone s now t pos z al)))) k
        = fired (fst (check_zone s now t pos z al)) k"
    by (rule Cons.IH) (simp add: Cons.prems)
  also have "\<dots> = fired s k"
    by (rule check_zone_fired_other) (simp add: Cons.prems)
  finally show ?case by (simp only: process_zones_Cons)
qed

lemma process_zones_fired_key:
  "distinct (map name zs) \<Longrightarrow> z \<in> set zs \<Longrightarrow>
     fired (fst (process_zones s now t pos zs al)) (t, name z) =
       (if contains_point z (fst pos) (snd pos)
        then (if can_fire s now (t, name z) then Some now else fired s (t, name z))
        else None)"
proof (induction zs arbitrary: s al)
  case Nil
  then show ?case by simp
next
  case (Cons z' zs)
  let ?s1 = "fst (check_zone s now t pos z' al)"
  let ?a1 = "snd (check_zone s now t pos z' al)"
  from Cons.prems have d: "distinct (map name zs)" and n: "name z' \<notin> name ` set zs"
    by simp_all
  show ?case
  proof (cases "z = z'")
    case True
    have "fired (fst (process_zones ?s1 now t pos zs ?a1)) (t, name z) = fired ?s1 (t, name z)"
    proof (rule process_zones_fired_other)
      fix z'' assume "z'' \<in> set zs"
      then have "name z'' \<in> name ` set zs" by (rule imageI)
      with n True show "(t, name z) \<noteq> (t, name z'')" by auto
    qed
    then show ?thesis
      by (simp only: process_zones_Cons True check_zone_fired_key)
  next
    case False
    with Cons.prems have m: "z \<in> set zs" by simp
    then have "name z \<in> name ` set zs" by (rule imageI)
    with n have ne: "(t, name z) \<noteq> (t, name z')" by auto
    have c: "can_fire ?s1 now (t, name z) = can_fire s now (t, name z)"
      by (rule can_fire_cong) (simp_all add: check_zone_fields check_zone_fired_other [OF ne])
    show ?thesis
      by (simp only: process_zones_Cons Cons.IH [OF d m] c check_zone_fired_other [OF ne])
  qed
qed

lemma process_zones_alerts:
  "distinct (map name zs) \<Longrightarrow>
     snd (process_zones s now t pos zs al) =
       al @ map (\<lambda>z. \<lparr>alert_tag_id = t, alert_zone = z, alert_position = pos\<rparr>)
              (filter (\<lambda>z. contains_point z (fst pos) (snd pos) \<and> can_fire s now (t, name z)) zs)"
proof (induction zs arbitrary: s al)
  case Nil
  then show ?case by simp
next
  case (Cons z' zs)
  let ?s1 = "fst (check_zone s now t pos z' al)"
  let ?a1 = "snd (check_zone s now t pos z' al)"
  from Cons.prems have d: "distinct (map name zs)" and n: "name z' \<notin> name ` set zs"
    by simp_all
  have c: "can_fire ?s1 now (t, name z) = can_fire s now (t, name z)" if "z \<in> set zs" for z
  proof (rule can_fire_cong)
    show "retrigger_after_sec ?s1 = retrigger_after_sec s" by (simp add: check_zone_fields)
    from that have "name z \<in> name ` set zs" by (rule imageI)
    with n have "(t, name z) \<noteq> (t, name z')" by auto
    then show "fired ?s1 (t, name z) = fired s (t, name z)" by (rule check_zone_fired_other)
  qed
  have f: "filter (\<lambda>z. contains_point z (fst pos) (snd pos) \<and> can_fire ?s1 now (t, name z)) zs
         = filter (\<lambda>z. contains_point z (fst pos) (snd pos) \<and> can_fire s now (t, name z)) zs"
    by (rule filter_cong) (simp_all add: c)
  show ?case
    by (simp only: process_zones_Cons Cons.IH [OF d] f check_zone_alerts) simp
qed

text \<open>The outer loop, by induction on the items of the batch.\<close>

lemma process_items_Cons:
  "process_items s now ((t, pos) # rest) al =
     (if filtered_out s t then process_items s now rest al
      else process_items (fst (process_zones s now t pos (zones s) al)) now rest
             (snd (process_zones s now t pos (zones s) al)))"
  by (simp split: prod.splits)

lemma process_items_fields_all:
  "zones (fst (process_items s now items al)) = zones s
   \<and> retrigger_after_sec (fst (process_items s now items al)) = retrigger_after_sec s
   \<and> target_tag_ids (fst (process_items s now items al)) = target_tag_ids s
   \<and> latest_positions (fst (process_items s now items al)) = latest_positions s"
proof (induction items arbitrary: s al)
  case Nil
  show ?case by simp
next
  case (Cons item items)
  obtain t pos where item: "item = (t, pos)" by (cases item)
  show ?case
    unfolding item process_items_Cons
    using Cons.IH [of s al]
      Cons.IH [of "fst (process_zones s now t pos (zones s) al)"
                  "snd (process_zones s now t pos (zones s) al)"]
    by (simp add: process_zones_fields)
qed

lemma process_items_fields:
  "zones (fst (process_items s now items al)) = zones s"
  "retrigger_after_sec (fst (process_items s now items al)) = retrigger_after_sec s"
  "target_tag_ids (fst (process_items s now items al)) = target_tag_ids s"
  "latest_positions (fst (process_items s now items al)) = latest_positions s"
  using process_items_fields_all [of s now items al] by simp_all

lemma process_items_fired_other:
  "t \<notin> fst ` set items \<Longrightarrow> fired (fst (process_items s now items al)) (t, n) = fired s (t, n)"
proof (induction items arbitrary: s al)
  case Nil
  show ?case by simp
next
  case (Cons item items)
  obtain t' pos where item: "item = (t', pos)" by (cases item)
  from Cons.prems item have ne: "t \<noteq> t'" and rest: "t \<notin> fst ` set items" by auto
  let ?s1 = "fst (process_zones s now t' pos (zones s) al)"
  have "fired ?s1 (t, n) = fired s (t, n)"
    by (rule process_zones_fired_other) (simp add: ne)
  then show ?case
    unfolding item process_items_Cons
    using Cons.IH [OF rest] by simp
qed

text \<open>
  A service that differs from \<open>s\<close> only in entries of other tags treats the tag \<open>t\<close>
  as \<open>s\<close> does.
\<close>

lemma process_zones_other_tag:
  assumes "t \<noteq> t'"
  shows "filtered_out (fst (process_zones s now t' pos (zones s) al)) t = filtered_out s t"
    and "can_fire (fst (process_zones s now t' pos (zones s) al)) now (t, n) = can_fire s now (t, n)"
    and "fired (fst (process_zones s now t' pos (zones s) al)) (t, n) = fired s (t, n)"
proof -
  let ?s1 = "fst (process_zones s now t' pos (zones s) al)"
  show "filtered_out ?s1 t = filtered_out s t"
    by (rule filtered_out_cong) (simp add: process_zones_fields)
  show f: "fired ?s1 (t, n) = fired s (t, n)"
    by (rule process_zones_fired_other) (simp add: assms)
  show "can_fire ?s1 now (t, n) = can_fire s now (t, n)"
    by (rule can_fire_cong) (simp_all add: process_zones_fields f)
qed

lemma process_items_fired_key:
  "distinct (map fst items) \<Longrightarrow> distinct (map name (zones s)) \<Longrightarrow> (t, pos) \<in> set items
     \<Longrightarrow> \<not> filtered_out s t \<Longrightarrow> z \<in> set (zones s) \<Longrightarrow>
     fired (fst (process_items s now items al)) (t, name z) =
       (if contains_point z (fst pos) (snd pos)
        then (if can_fire s now (t, name z) then Some now else fired s (t, name z))
        else None)"
proof (induction items arbitrary: s al)
  case Nil
  then show ?case by simp
next
  case (Cons item items)
  obtain t' pos' where item: "item = (t', pos')" by (cases item)
  let ?s1 = "fst (process_zones s now t' pos' (zones s) al)"
  let ?a1 = "snd (process_zones s now t' pos' (zones s) al)"
  from Cons.prems(1) item have d: "distinct (map fst items)" and n: "t' \<notin> fst ` set items"
    by simp_all
  show ?case
  proof (cases "(t, pos) = (t', pos')")
    case True
    then have eq: "t' = t" "pos' = pos" by simp_all
    from n eq have "fired (fst (process_items ?s1 now items ?a1)) (t, name z) = fired ?s1 (t, name z)"
      by (intro process_items_fired_other) simp
    also have "\<dots> = (if contains_point z (fst pos) (snd pos)
        then (if can_fire s now (t, name z) then Some now else fired s (t, name z))
        else None)"
      unfolding eq by (rule process_zones_fired_key) (use Cons.prems in simp_all)
    finally show ?thesis
      unfolding item process_items_Cons using Cons.prems(4) eq by simp
  next
    case False
    with Cons.prems(3) item have m: "(t, pos) \<in> set items" by auto
    then have "t \<in> fst ` set items" by force
    with n have ne: "t \<noteq> t'" by auto
    show ?thesis
    proof (cases "filtered_out s t'")
      case True
      then show ?thesis
        unfolding item process_items_Cons
        using Cons.IH [OF d Cons.prems(2) m Cons.prems(4) Cons.prems(5)] by simp
    next
      case False
      have "fired (fst (process_items ?s1 now items ?a1)) (t, name z) =
              (if contains_point z (fst pos) (snd pos)
               then (if can_fire ?s1 now (t, name z) then Some now else fired ?s1 (t, name z))
               else None)"
        by (rule Cons.IH [OF d _ m])
           (use Cons.prems in \<open>simp_all add: process_zones_fields process_zones_other_tag [OF ne]\<close>)
      then show ?thesis
        unfolding item process_items_Cons
        using False by (simp add: process_zones_other_tag [OF ne])
    qed
  qed
qed

lemma process_items_alerts:
  "distinct (map fst items) \<Longrightarrow> distinct (map name (zones s)) \<Longrightarrow>
     snd (process_items s now items al) =
       al @ concat (map (\<lambda>(t, pos).
                if filtered_out s t then []
                else map (\<lambda>z. \<lparr>alert_tag_id = t, alert_zone = z, alert_position = pos\<rparr>)
                       (filter (\<lambda>z. contains_point z (fst pos) (snd pos)
                                     \<and> can_fire s now (t, name z)) (zones s)))
              items)"
proof (induction items arbitrary: s al)
  case Nil
  then show ?case by simp
next
  case (Cons item items)
  obtain t' pos' where item: "item = (t', pos')" by (cases item)
  let ?s1 = "fst (process_zones s now t' pos' (zones s) al)"
  let ?a1 = "snd (process_zones s now t' pos' (zones s) al)"
  let ?F = "\<lambda>s (t, pos).
                if filtered_out s t then []
                else map (\<lambda>z. \<lparr>alert_tag_id = t, alert_zone = z, alert_position = pos\<rparr>)
                       (filter (\<lambda>z. contains_point z (fst pos) (snd pos)
                                     \<and> can_fire s now (t, name z)) (zones s))"
  from Cons.prems(1) item have d: "distinct (map fst items)" and n: "t' \<notin> fst ` set items"
    by simp_all
  show ?case
  proof (cases "filtered_out s t'")
    case True
    then show ?thesis
      unfolding item process_items_Cons
      using Cons.IH [OF d Cons.prems(2)] by simp
  next
    case False
    have same: "?F ?s1 i = ?F s i" if "i \<in> set items" for i
    proof -
      obtain t pos where i: "i = (t, pos)" by (cases i)
      from that i have "t \<in> fst ` set items" by force
      with n have ne: "t \<noteq> t'" by auto
      show ?thesis
        unfolding i by (simp add: process_zones_other_tag [OF ne] process_zones_fields)
    qed
    have mapeq: "map (?F ?s1) items = map (?F s) items"
      by (rule map_cong) (simp_all add: same)
    have a1: "?a1 = al @ ?F s (t', pos')"
      using False by (simp add: process_zones_alerts [OF Cons.prems(2)])
    have "snd (process_items s now (item # items) al) = snd (process_items ?s1 now items ?a1)"
      unfolding item process_items_Cons using False by simp
    also have "\<dots> = ?a1 @ concat (map (?F ?s1) items)"
      by (rule Cons.IH [OF d]) (simp add: process_zones_fields Cons.prems(2))
    also have "\<dots> = ?a1 @ concat (map (?F s) items)"
      by (simp only: mapeq)
    also have "\<dots> = (al @ ?F s (t', pos')) @ concat (map (?F s) items)"
      using a1 by (rule arg_cong)
    also have "\<dots> = al @ concat (map (?F s) ((t', pos') # items))"
      by (simp only: list.map concat.simps append_assoc)
    finally show ?thesis unfolding item .
  qed
qed

lemma can_fire_Some:
  "retrigger_after_sec s = Some r \<Longrightarrow>
     can_fire s now key \<longleftrightarrow>
       (fired s key = None \<or> (\<exists>ts. fired s key = Some ts \<and> now - ts \<ge> r))"
  by (auto simp: can_fire_def split: option.splits)

lemma process_positions_alert_iff:
  assumes "distinct (map fst positions)" and "distinct (map name (zones s))"
    and "(t, pos) \<in> set positions" and "\<not> filtered_out s t"
    and "z \<in> set (zones s)"
  shows "\<lparr>alert_tag_id = t, alert_zone = z, alert_position = pos\<rparr>
           \<in> set (snd (process_positions s now positions))
         \<longleftrightarrow> (contains_point z (fst pos) (snd pos) \<and> can_fire s now (t, name z))"
proof -
  let ?s0 = "s\<lparr>latest_positions := latest_positions s ++ map_of positions\<rparr>"
  have z: "zones ?s0 = zones s" by simp
  have f: "filtered_out ?s0 t' = filtered_out s t'" for t'
    by (simp add: filtered_out_def)
  have c: "can_fire ?s0 now k = can_fire s now k" for k
    by (rule can_fire_cong) simp_all
  have "snd (process_positions s now positions) =
          concat (map (\<lambda>(t, pos).
                if filtered_out s t then []
                else map (\<lambda>z. \<lparr>alert_tag_id = t, alert_zone = z, alert_position = pos\<rparr>)
                       (filter (\<lambda>z. contains_point z (fst pos) (snd pos)
                                     \<and> can_fire s now (t, name z)) (zones s)))
              positions)"
    unfolding process_positions_def
    using process_items_alerts [of positions ?s0 now "[]"] assms(1,2)
    by (simp add: z f c cong: if_cong)
  then have "\<lparr>alert_tag_id = t, alert_zone = z, alert_position = pos\<rparr>
               \<in> set (snd (process_positions s now positions))
             \<longleftrightarrow> (\<exists>i \<in> set positions. \<not> filtered_out s (fst i)
                   \<and> (\<exists>z' \<in> set (zones s).
                         contains_point z' (fst (snd i)) (snd (snd i))
                         \<and> can_fire s now (fst i, name z')
                         \<and> t = fst i \<and> z = z' \<and> pos = snd i))"
    by (auto simp: split_def)
  also have "\<dots> \<longleftrightarrow> (contains_point z (fst pos) (snd pos) \<and> can_fire s now (t, name z))"
  proof
    assume "\<exists>i \<in> set positions. \<not> filtered_out s (fst i)
                   \<and> (\<exists>z' \<in> set (zones s).
                         contains_point z' (fst (snd i)) (snd (snd i))
                         \<and> can_fire s now (fst i, name z')
                         \<and> t = fst i \<and> z = z' \<and> pos = snd i)"
    then show "contains_point z (fst pos) (snd pos) \<and> can_fire s now (t, name z)"
      by auto
  next
    assume a: "contains_point z (fst pos) (snd pos) \<and> can_fire s now (t, name z)"
    show "\<exists>i \<in> set positions. \<not> filtered_out s (fst i)
                   \<and> (\<exists>z' \<in> set (zones s).
                         contains_point z' (fst (snd i)) (snd (snd i))
                         \<and> can_fire s now (fst i, name z')
                         \<and> t = fst i \<and> z = z' \<and> pos = snd i)"
      by (rule bexI [OF _ assms(3)]) (use a assms(4,5) in simp)
  qed
  finally show ?thesis .
qed

lemma process_positions_fired_key:
  assumes "distinct (map fst positions)" and "distinct (map name (zones s))"
    and "(t, pos) \<in> set positions" and "\<not> filtered_out s t"
    and "z \<in> set (zones s)"
  shows "fired (fst (process_positions s now positions)) (t, name z) =
           (if contains_point z (fst pos) (snd pos)
            then (if can_fire s now (t, name z) then Some now else fired s (t, name z))
            else None)"
proof -
  let ?s0 = "s\<lparr>latest_positions := latest_positions s ++ map_of positions\<rparr>"
  have "fired (fst (process_items ?s0 now positions [])) (t, name z) =
          (if contains_point z (fst pos) (snd pos)
           then (if can_fire ?s0 now (t, name z) then Some now else fired ?s0 (t, name z))
           else None)"
    by (rule process_items_fired_key) (use assms in \<open>simp_all add: filtered_out_def\<close>)
  moreover have "can_fire ?s0 now (t, name z) = can_fire s now (t, name z)"
    by (rule can_fire_cong) simp_all
  ultimately show ?thesis
    by (simp add: process_positions_def)
qed

lemma process_positions_fields:
  "zones (fst (process_positions s now positions)) = zones s"
  "retrigger_after_sec (fst (process_positions s now positions)) = retrigger_after_sec s"
  "target_tag_ids (fst (process_positions s now positions)) = target_tag_ids s"
  by (simp_all add: process_positions_def process_items_fields)

text \<open>
  Claim C1, with the tag filter made explicit. For every evaluation call on a batch
  and every tag position of the batch that passes the tag allow-list filter and is
  inside a configured zone (zone names unique, as the zone set requires): the alert
  for the tag and the zone is emitted exactly when no hysteresis entry exists for
  \<open>(tag_id, zone.name)\<close> or \<open>now\<close> minus the entry's timestamp is at least the
  retrigger interval; when the alert is emitted the entry is overwritten with \<open>now\<close>,
  and when it is not the entry is unchanged.
\<close>

theorem hysteresis_alert_iff_can_fire:
  assumes "distinct (map fst positions)" and "distinct (map name (zones s))"
    and "retrigger_after_sec s = Some r"
    and "(tag, (x, y)) \<in> set positions" and "\<not> filtered_out s tag"
    and "z \<in> set (zones s)" and "contains_point z x y"
  shows "(\<lparr>alert_tag_id = tag, alert_zone = z, alert_position = (x, y)\<rparr>
            \<in> set (snd (process_positions s now positions))
          \<longleftrightarrow> (fired s (tag, name z) = None
               \<or> (\<exists>ts. fired s (tag, name z) = Some ts \<and> now - ts \<ge> r)))
       \<and> (\<lparr>alert_tag_id = tag, alert_zone = z, alert_position = (x, y)\<rparr>
            \<in> set (snd (process_positions s now positions))
          \<longrightarrow> fired (fst (process_positions s now positions)) (tag, name z) = Some now)
       \<and> (\<lparr>alert_tag_id = tag, alert_zone = z, alert_position = (x, y)\<rparr>
            \<notin> set (snd (process_positions s now positions))
          \<longrightarrow> fired (fst (process_positions s now positions)) (tag, name z)
                = fired s (tag, name z))"
proof -
  have a: "\<lparr>alert_tag_id = tag, alert_zone = z, alert_position = (x, y)\<rparr>
             \<in> set (snd (process_positions s now positions))
           \<longleftrightarrow> can_fire s now (tag, name z)"
    using process_positions_alert_iff [OF assms(1,2,4,5,6), of now] assms(7) by simp
  have f: "fired (fst (process_positions s now positions)) (tag, name z) =
             (if can_fire s now (tag, name z) then Some now else fired s (tag, name z))"
    using process_positions_fired_key [OF assms(1,2,4,5,6), of now] assms(7) by simp
  have k: "can_fire s now (tag, name z) \<longleftrightarrow>
             (fired s (tag, name z) = None
              \<or> (\<exists>ts. fired s (tag, name z) = Some ts \<and> now - ts \<ge> r))"
    by (rule can_fire_Some [OF assms(3)])
  show ?thesis
    unfolding a f k [symmetric] by simp
qed

theorem hysteresis_alert_iff_can_fire_witness:
  "\<lparr>alert_tag_id = 7,
     alert_zone = \<lparr>min_x = 1, min_y = 1, max_x = 2, max_y = 2, name = ''A''\<rparr>,
     alert_position = (3 / 2, 3 / 2)\<rparr>
     \<in> set (snd (process_positions
          (GeofencingService_init
             [\<lparr>min_x = 1, min_y = 1, max_x = 2, max_y = 2, name = ''A''\<rparr>] None 5 None)
          0 [(7, (3 / 2, 3 / 2))]))
   \<and> fired (fst (process_positions
          (GeofencingService_init
             [\<lparr>min_x = 1, min_y = 1, max_x = 2, max_y = 2, name = ''A''\<rparr>] None 5 None)
          0 [(7, (3 / 2, 3 / 2))])) (7, ''A'') = Some 0
   \<and> \<lparr>alert_tag_id = 7,
     alert_zone = \<lparr>min_x = 1, min_y = 1, max_x = 2, max_y = 2, name = ''A''\<rparr>,
     alert_position = (3 / 2, 3 / 2)\<rparr>
     \<notin> set (snd (process_positions
          (fst (process_positions
             (GeofencingService_init
                [\<lparr>min_x = 1, min_y = 1, max_x = 2, max_y = 2, name = ''A''\<rparr>] None 5 None)
             0 [(7, (3 / 2, 3 / 2))]))
          4 [(7, (3 / 2, 3 / 2))]))
   \<and> fired (fst (process_positions
          (fst (process_positions
             (GeofencingService_init
                [\<lparr>min_x = 1, min_y = 1, max_x = 2, max_y = 2, name = ''A''\<rparr>] None 5 None)
             0 [(7, (3 / 2, 3 / 2))]))
          4 [(7, (3 / 2, 3 / 2))])) (7, ''A'') = Some 0
   \<and> \<lparr>alert_tag_id = 7,
     alert_zone = \<lparr>min_x = 1, min_y = 1, max_x = 2, max_y = 2, name = ''A''\<rparr>,
     alert_position = (3 / 2, 3 / 2)\<rparr>
     \<in> set (snd (process_positions
          (fst (process_positions
             (GeofencingService_init
                [\<lparr>min_x = 1, min_y = 1, max_x = 2, max_y = 2, name = ''A''\<rparr>] None 5 None)
             0 [(7, (3 / 2, 3 / 2))]))
          6 [(7, (3 / 2, 3 / 2))]))"
proof -
  let ?z = "\<lparr>min_x = 1, min_y = 1, max_x = 2, max_y = 2, name = ''A''\<rparr>"
  let ?s0 = "GeofencingService_init [?z] None 5 None"
  let ?b = "[(7 :: int, (3 / 2 :: real, 3 / 2 :: real))]"
  let ?s1 = "fst (process_positions ?s0 0 ?b)"
  have c: "contains_point ?z (3 / 2) (3 / 2)"
    by (simp add: contains_point_closed)
  have d: "distinct (map fst ?b)" and m: "(7, (3 / 2, 3 / 2)) \<in> set ?b"
    by simp_all
  have h0: "distinct (map name (zones ?s0))" "retrigger_after_sec ?s0 = Some 5"
    "\<not> filtered_out ?s0 7" "?z \<in> set (zones ?s0)"
    by (simp_all add: GeofencingService_init_def filtered_out_def)
  have f0: "fired ?s0 (7, ''A'') = None"
    by (simp add: GeofencingService_init_def)
  from hysteresis_alert_iff_can_fire [OF d h0(1,2) m h0(3,4) c, of 0] f0
  have r1: "\<lparr>alert_tag_id = 7, alert_zone = ?z, alert_position = (3 / 2, 3 / 2)\<rparr>
              \<in> set (snd (process_positions ?s0 0 ?b))"
    "fired ?s1 (7, ''A'') = Some 0"
    by simp_all
  have h1: "distinct (map name (zones ?s1))" "retrigger_after_sec ?s1 = Some 5"
    "\<not> filtered_out ?s1 7" "?z \<in> set (zones ?s1)"
    using h0 by (simp_all add: process_positions_fields filtered_out_def)
  from hysteresis_alert_iff_can_fire [OF d h1(1,2) m h1(3,4) c, of 4] r1(2)
  have r2: "\<lparr>alert_tag_id = 7, alert_zone = ?z, alert_position = (3 / 2, 3 / 2)\<rparr>
              \<notin> set (snd (process_positions ?s1 4 ?b))"
    "fired (fst (process_positions ?s1 4 ?b)) (7, ''A'') = Some 0"
    by simp_all
  from hysteresis_alert_iff_can_fire [OF d h1(1,2) m h1(3,4) c, of 6] r1(2)
  have r3: "\<lparr>alert_tag_id = 7, alert_zone = ?z, alert_position = (3 / 2, 3 / 2)\<rparr>
              \<in> set (snd (process_positions ?s1 6 ?b))"
    by simp
  from r1 r2 r3 show ?thesis by simp
qed

text \<open>
  Claim C1 as stated, without the filter, fails. A service whose allow-list is \<open>{42}\<close>
  is given tag 7 at a position inside zone \<open>A\<close>, with no hysteresis entry for
  \<open>(7, A)\<close>: the call emits no alert.
\<close>

theorem filtered_tag_inside_zone_no_alert:
  "contains_point \<lparr>min_x = 1, min_y = 1, max_x = 2, max_y = 2, name = ''A''\<rparr> (3 / 2) (3 / 2)
   \<and> fired (GeofencingService_init
        [\<lparr>min_x = 1, min_y = 1, max_x = 2, max_y = 2, name = ''A''\<rparr>] (Some 5) 5 (Some {42}))
        (7, ''A'') = None
   \<and> snd (process_positions
        (GeofencingService_init
           [\<lparr>min_x = 1, min_y = 1, max_x = 2, max_y = 2, name = ''A''\<rparr>] (Some 5) 5 (Some {42}))
        100 [(7, (3 / 2, 3 / 2))]) = []"
  by (simp add: contains_point_closed GeofencingService_init_def process_positions_def
        filtered_out_def)

text \<open>
  Claim C2, for a zone set whose names are unique. After any evaluation call, for every
  tag and zone such that the batch holds a position of the tag that passes the tag
  filter and lies outside the zone, no hysteresis entry exists for
  \<open>(tag_id, zone.name)\<close>; so whenever the tag is next seen inside the zone, however
  soon, the alert fires again.
\<close>

theorem exit_clears_entry_reentry_fires:
  assumes "distinct (map fst positions)" and "distinct (map name (zones s))"
    and "(tag, (x, y)) \<in> set positions" and "\<not> filtered_out s tag"
    and "z \<in> set (zones s)" and "\<not> contains_point z x y"
  shows "fired (fst (process_positions s now positions)) (tag, name z) = None
       \<and> (\<forall>now' positions' x' y'.
            distinct (map fst positions') \<and> (tag, (x', y')) \<in> set positions'
            \<and> contains_point z x' y'
            \<longrightarrow> \<lparr>alert_tag_id = tag, alert_zone = z, alert_position = (x', y')\<rparr>
                  \<in> set (snd (process_positions (fst (process_positions s now positions))
                               now' positions')))"
proof -
  let ?s1 = "fst (process_positions s now positions)"
  have f: "fired ?s1 (tag, name z) = None"
    using process_positions_fired_key [OF assms(1,2,3,4,5), of now] assms(6) by simp
  have h1: "distinct (map name (zones ?s1))" "\<not> filtered_out ?s1 tag" "z \<in> set (zones ?s1)"
    using assms(2,4,5) by (simp_all add: process_positions_fields filtered_out_def)
  have c: "can_fire ?s1 now' (tag, name z)" for now'
    using f by (simp add: can_fire_def split: option.splits)
  have "\<lparr>alert_tag_id = tag, alert_zone = z, alert_position = (x', y')\<rparr>
          \<in> set (snd (process_positions ?s1 now' positions'))"
    if "distinct (map fst positions')" and "(tag, (x', y')) \<in> set positions'"
      and "contains_point z x' y'" for now' positions' x' y'
    using process_positions_alert_iff [OF that(1) h1(1) that(2) h1(2,3), of now'] that(3) c
    by simp
  with f show ?thesis by blast
qed

theorem exit_clears_entry_reentry_fires_witness:
  "fired (fst (process_positions
          (fst (process_positions
             (GeofencingService_init
                [\<lparr>min_x = 1, min_y = 1, max_x = 2, max_y = 2, name = ''A''\<rparr>] None 5 None)
             0 [(7, (3 / 2, 3 / 2))]))
          1 [(7, (3, 3))])) (7, ''A'') = None
   \<and> \<lparr>alert_tag_id = 7,
     alert_zone = \<lparr>min_x = 1, min_y = 1, max_x = 2, max_y = 2, name = ''A''\<rparr>,
     alert_position = (3 / 2, 3 / 2)\<rparr>
     \<in> set (snd (process_positions
          (fst (process_positions
             (fst (process_positions
                (GeofencingService_init
                   [\<lparr>min_x = 1, min_y = 1, max_x = 2, max_y = 2, name = ''A''\<rparr>] None 5 None)
                0 [(7, (3 / 2, 3 / 2))]))
             1 [(7, (3, 3))]))
          2 [(7, (3 / 2, 3 / 2))]))"
proof -
  let ?z = "\<lparr>min_x = 1, min_y = 1, max_x = 2, max_y = 2, name = ''A''\<rparr>"
  let ?s0 = "GeofencingService_init [?z] None 5 None"
  let ?b = "[(7 :: int, (3 / 2 :: real, 3 / 2 :: real))]"
  let ?out = "[(7 :: int, (3 :: real, 3 :: real))]"
  let ?s1 = "fst (process_positions ?s0 0 ?b)"
  have c: "contains_point ?z (3 / 2) (3 / 2)" and nc: "\<not> contains_point ?z 3 3"
    by (simp_all add: contains_point_closed)
  have d: "distinct (map fst ?out)" and m: "(7, (3, 3)) \<in> set ?out"
    by simp_all
  have h1: "distinct (map name (zones ?s1))" "\<not> filtered_out ?s1 7" "?z \<in> set (zones ?s1)"
    by (simp_all add: process_positions_fields filtered_out_def GeofencingService_init_def)
  from exit_clears_entry_reentry_fires [OF d h1(1) m h1(2,3) nc, of 1]
  have e: "fired (fst (process_positions ?s1 1 ?out)) (7, ''A'') = None"
    and r: "\<And>now' positions' x' y'.
            distinct (map fst positions') \<Longrightarrow> (7, (x', y')) \<in> set positions'
            \<Longrightarrow> contains_point ?z x' y'
            \<Longrightarrow> \<lparr>alert_tag_id = 7, alert_zone = ?z, alert_position = (x', y')\<rparr>
                  \<in> set (snd (process_positions (fst (process_positions ?s1 1 ?out))
                               now' positions'))"
    by simp_all
  have "\<lparr>alert_tag_id = 7, alert_zone = ?z, alert_position = (3 / 2, 3 / 2)\<rparr>
          \<in> set (snd (process_positions (fst (process_positions ?s1 1 ?out)) 2 ?b))"
    by (rule r) (simp_all add: c)
  with e show ?thesis by simp
qed

text \<open>
  Claim C2 as stated, for any zone set, fails when two zones share a name. Zones
  \<open>[1, 2] \<times> [1, 2]\<close> and \<open>[5, 6] \<times> [5, 6]\<close> are both named \<open>A\<close>; tag 7 at
  \<open>(5.5, 5.5)\<close> is outside the first and inside the second. The pass over the first
  zone removes the entry \<open>(7, A)\<close>, the pass over the second records it again: after the
  call the entry exists although the tag is outside the first zone.
\<close>

theorem duplicate_zone_name_keeps_entry:
  "\<not> contains_point \<lparr>min_x = 1, min_y = 1, max_x = 2, max_y = 2, name = ''A''\<rparr> (11 / 2) (11 / 2)
   \<and> \<lparr>min_x = 1, min_y = 1, max_x = 2, max_y = 2, name = ''A''\<rparr>
       \<in> set (zones (GeofencingService_init
            [\<lparr>min_x = 1, min_y = 1, max_x = 2, max_y = 2, name = ''A''\<rparr>,
             \<lparr>min_x = 5, min_y = 5, max_x = 6, max_y = 6, name = ''A''\<rparr>] None 5 None))
   \<and> fired (fst (process_positions
        (GeofencingService_init
           [\<lparr>min_x = 1, min_y = 1, max_x = 2, max_y = 2, name = ''A''\<rparr>,
            \<lparr>min_x = 5, min_y = 5, max_x = 6, max_y = 6, name = ''A''\<rparr>] None 5 None)
        0 [(7, (11 / 2, 11 / 2))])) (7, ''A'') = Some 0"
  by (simp add: contains_point_closed GeofencingService_init_def process_positions_def
        filtered_out_def check_zone_def clear_if_outside_def can_fire_def mark_fired_def)

section \<open>The location update\<close>

lemma broadcasts_publish [simp]:
  "broadcasts (publish send_ok msg st) = broadcasts st @ [msg]"
  by (simp add: publish_def split: prod.splits)

lemma geofencing_publish [simp]:
  "geofencing (publish send_ok msg st) = geofencing st"
  by (simp add: publish_def split: prod.splits)




lemma process_tags_append:
  "process_tags send_ok clock i st (pre @ tag # post) =
     process_tags send_ok clock (Suc (i + length pre))
       (process_tag send_ok (clock (i + length pre)) (process_tags send_ok clock i st pre) tag)
       post"
  by (induction pre arbitrary: i st) simp_all





end
